theory Spec2Isabelle
  imports Main "HOL-Library.AList"
begin

section \<open>Strings\<close>

text \<open>
  A JavaScript string is a sequence of UTF-16 code units; a code unit is modelled by its
  number. \<open>js\<close> writes an ASCII literal as such a sequence.  \<open>toLowerCase\<close> depends on the
  Unicode tables of the runtime and is a parameter \<open>lc\<close> of every function that calls it;
  \<open>ascii_lower\<close> is its restriction to ASCII, used in the examples.
\<close>

type_synonym jschar = nat
type_synonym jstring = "jschar list"

definition js :: "string \<Rightarrow> jstring" where
  "js s = map of_char s"

definition ascii_lower :: "jstring \<Rightarrow> jstring" where
  "ascii_lower s = map (\<lambda>c. if 65 \<le> c \<and> c \<le> 90 then c + 32 else c) s"

text \<open>The class \<open>\s\<close> of a regular expression, which is also what \<open>trim\<close> strips.\<close>

definition is_space :: "jschar \<Rightarrow> bool" where
  "is_space c \<longleftrightarrow>
     c = 9 \<or> c = 10 \<or> c = 11 \<or> c = 12 \<or> c = 13 \<or> c = 32 \<or> c = 160 \<or> c = 5760 \<or>
     (8192 \<le> c \<and> c \<le> 8202) \<or> c = 8232 \<or> c = 8233 \<or> c = 8239 \<or> c = 8287 \<or>
     c = 12288 \<or> c = 65279"

text \<open>The class \<open>[.,!?;:"'()[\]{}]\<close> of \<open>segmentVietnamese\<close> and \<open>smartSegmentAndTranslate\<close>.\<close>

definition is_punct :: "jschar \<Rightarrow> bool" where
  "is_punct c \<longleftrightarrow>
     c = 46 \<or> c = 44 \<or> c = 33 \<or> c = 63 \<or> c = 59 \<or> c = 58 \<or> c = 34 \<or> c = 39 \<or>
     c = 40 \<or> c = 41 \<or> c = 91 \<or> c = 93 \<or> c = 123 \<or> c = 125"

definition is_digit :: "jschar \<Rightarrow> bool" where
  "is_digit c \<longleftrightarrow> 48 \<le> c \<and> c \<le> 57"

definition trim :: "jstring \<Rightarrow> jstring" where
  "trim s = rev (dropWhile is_space (rev (dropWhile is_space s)))"

text \<open>\<open>s.split(c)\<close> for a one-character separator: one piece more than separators.\<close>

fun split_on :: "jschar \<Rightarrow> jstring \<Rightarrow> jstring list" where
  "split_on c [] = [[]]"
| "split_on c (x # xs) =
     (if x = c then [] # split_on c xs
      else (case split_on c xs of [] \<Rightarrow> [[x]] | w # ws \<Rightarrow> (x # w) # ws))"

text \<open>\<open>parts.join(' ')\<close>.\<close>

fun join_sp :: "jstring list \<Rightarrow> jstring" where
  "join_sp [] = []"
| "join_sp [w] = w"
| "join_sp (w # v # ws) = w @ 32 # join_sp (v # ws)"

text \<open>\<open>xs.slice(i, j)\<close> for \<open>0 \<le> i \<le> j\<close>.\<close>

definition slice :: "'a list \<Rightarrow> nat \<Rightarrow> nat \<Rightarrow> 'a list" where
  "slice xs i j = take (j - i) (drop i xs)"

text \<open>A value is truthy unless it is \<open>undefined\<close> or the empty string.\<close>

definition truthy :: "jstring option \<Rightarrow> bool" where
  "truthy v \<longleftrightarrow> (case v of None \<Rightarrow> False | Some s \<Rightarrow> s \<noteq> [])"

definition js_or :: "jstring option \<Rightarrow> jstring option \<Rightarrow> jstring option" where
  "js_or a b = (if truthy a then a else b)"

section \<open>Normalizer\<close>

text \<open>\<open>.replace(/[.,!?;:"'()[\]{}]/g, ' ')\<close>\<close>

definition replace_punct :: "jstring \<Rightarrow> jstring" where
  "replace_punct s = map (\<lambda>c. if is_punct c then 32 else c) s"

text \<open>\<open>.replace(/\s+/g, ' ')\<close>: every maximal run of white space becomes one space.\<close>

function collapse_ws :: "jstring \<Rightarrow> jstring" where
  "collapse_ws [] = []"
| "collapse_ws (c # cs) =
     (if is_space c then 32 # collapse_ws (dropWhile is_space cs) else c # collapse_ws cs)"
  by pat_completeness auto
termination
  by (relation "measure length") (auto simp: length_dropWhile_le less_Suc_eq_le)

definition syllables_of :: "jstring \<Rightarrow> jstring list" where
  "syllables_of text =
     filter (\<lambda>s. length s > 0) (split_on 32 (collapse_ws (replace_punct (trim text))))"

section \<open>Lexicon\<close>

text \<open>
  \<open>dictionary\<close> is the object read from \<open>dictionary.json\<close>: a map from phrases to
  translations (properties inherited from \<open>Object.prototype\<close> are not modelled).
  \<open>dict_entry\<close> is \<open>dictionary[lower] || dictionary[phrase]\<close>; the phrase is a hit when
  that value is truthy.
\<close>

type_synonym dict = "jstring \<rightharpoonup> jstring"

definition dict_entry :: "(jstring \<Rightarrow> jstring) \<Rightarrow> dict \<Rightarrow> jstring \<Rightarrow> jstring option" where
  "dict_entry lc dictionary phrase = js_or (dictionary (lc phrase)) (dictionary phrase)"

definition dict_hit :: "(jstring \<Rightarrow> jstring) \<Rightarrow> dict \<Rightarrow> jstring \<Rightarrow> bool" where
  "dict_hit lc dictionary phrase = truthy (dict_entry lc dictionary phrase)"

section \<open>Greedy segmenter (\<open>segmentVietnamese\<close>)\<close>

text \<open>
  The inner loop \<open>for (len = Math.min(4, n - i); len > 1; len--)\<close>: the first length,
  counting down, at which the compound is a dictionary hit.
\<close>

fun find_match :: "(jstring \<Rightarrow> jstring) \<Rightarrow> dict \<Rightarrow> jstring list \<Rightarrow> nat \<Rightarrow> nat \<Rightarrow> nat option" where
  "find_match lc dictionary syllables i 0 = None"
| "find_match lc dictionary syllables i (Suc n) =
     (if Suc n > 1 then
        (if dict_hit lc dictionary (join_sp (slice syllables i (i + Suc n))) then Some (Suc n)
         else find_match lc dictionary syllables i n)
      else None)"

function segment_loop ::
  "(jstring \<Rightarrow> jstring) \<Rightarrow> dict \<Rightarrow> jstring list \<Rightarrow> nat \<Rightarrow> jstring list \<Rightarrow> jstring list" where
  "segment_loop lc dictionary syllables i words =
     (if i < length syllables then
        (case find_match lc dictionary syllables i (min 4 (length syllables - i)) of
           Some len \<Rightarrow>
             segment_loop lc dictionary syllables (i + len)
               (words @ [join_sp (slice syllables i (i + len))])
         | None \<Rightarrow> segment_loop lc dictionary syllables (i + 1) (words @ [syllables ! i]))
      else words)"
  by pat_completeness auto
termination
proof -
  have pos: "0 < len" if "find_match lc d syls i L = Some len" for lc d syls i L len
    using that by (induction L) (auto split: if_splits)
  show ?thesis
    by (relation "measure (\<lambda>(lc, d, syls, i, ws). length syls - i)")
       (auto dest: pos)
qed

declare segment_loop.simps [simp del]

definition segmentVietnamese :: "(jstring \<Rightarrow> jstring) \<Rightarrow> dict \<Rightarrow> jstring \<Rightarrow> jstring list" where
  "segmentVietnamese lc dictionary text = segment_loop lc dictionary (syllables_of text) 0 []"

section \<open>Frequency aggregator (\<open>mergeWordFrequency\<close>)\<close>








text \<open>
  The phrase lists for which longest match gives back the phrases: each phrase has one
  to four syllables, a phrase of several syllables is a dictionary hit, and no longer
  dictionary hit of at most four syllables starts where the phrase starts.
\<close>

fun longest_match_phrases :: "(jstring \<Rightarrow> jstring) \<Rightarrow> dict \<Rightarrow> jstring list list \<Rightarrow> bool" where
  "longest_match_phrases lc dictionary [] = True"
| "longest_match_phrases lc dictionary (p # ps) =
     (let rest = concat (p # ps) in
        1 \<le> length p \<and> length p \<le> 4 \<and>
        (2 \<le> length p \<longrightarrow> dict_hit lc dictionary (join_sp p)) \<and>
        (\<forall>len \<in> set [length p + 1 ..< min 4 (length rest) + 1].
            \<not> dict_hit lc dictionary (join_sp (take len rest))) \<and>
        longest_match_phrases lc dictionary ps)"

section \<open>Translation oracle client (\<open>geminiTranslate\<close>, \<open>googleTranslate\<close>)\<close>

text \<open>
  A \<open>fetch\<close> is answered by the environment: with a status that is not ok, with a body
  that is not JSON of the expected shape, or with a body.  The answer may depend on the
  number of requests sent before and on the request.  For the prompt backend the body is
  \<open>data.candidates?.[0]?.content?.parts?.[0]?.text || ''\<close>; for the bulk backend it is the
  list of the \<open>translatedText\<close> fields.  The prompt numbers the lines of the batch from 1.
\<close>

datatype error =
    GeminiApiError nat jstring
  | GoogleApiError nat jstring
  | NoApiKey
  | BodyError
  | TypeError

datatype 'a response = HttpError nat jstring | BadBody | Body 'a

datatype request =
    GeminiRequest jstring jstring "jstring list"
  | GoogleRequest "jstring list" jstring jstring

record env =
  GOOGLE_API_KEY :: jstring
  GEMINI_API_KEY :: jstring
  toLowerCase :: "jstring \<Rightarrow> jstring"
  gemini_api :: "nat \<Rightarrow> jstring \<Rightarrow> jstring \<Rightarrow> jstring list \<Rightarrow> jstring response"
  google_api :: "nat \<Rightarrow> jstring list \<Rightarrow> jstring \<Rightarrow> jstring \<Rightarrow> jstring list response"

text \<open>
  The mutable globals: \<open>dictionary\<close>, \<open>translationCache\<close>, and the requests sent so far.
\<close>

record state =
  dictionary :: dict
  translationCache :: "jstring \<rightharpoonup> jstring"
  sent :: "request list"

definition API_KEY :: "env \<Rightarrow> jstring" where
  "API_KEY env = (if GOOGLE_API_KEY env \<noteq> [] then GOOGLE_API_KEY env else GEMINI_API_KEY env)"

text \<open>\<open>`${source}:${target}:${text}`\<close>\<close>

definition cacheKey :: "jstring \<Rightarrow> jstring \<Rightarrow> jstring \<Rightarrow> jstring" where
  "cacheKey source target t = source @ 58 # target @ 58 # t"

text \<open>
  The first loop of both clients.  \<open>results\<close> is \<open>new Array(texts.length)\<close>: a hole is
  \<open>None\<close>.
\<close>

definition check_cache ::
  "(jstring \<rightharpoonup> jstring) \<Rightarrow> jstring \<Rightarrow> jstring \<Rightarrow> jstring list
     \<Rightarrow> jstring option list \<times> jstring list \<times> nat list" where
  "check_cache cache source target texts =
     foldl (\<lambda>(results, uncachedTexts, uncachedIndices) i.
              let cached = cache (cacheKey source target (texts ! i)) in
              if truthy cached then (results[i := cached], uncachedTexts, uncachedIndices)
              else (results, uncachedTexts @ [texts ! i], uncachedIndices @ [i]))
       (replicate (length texts) None, [], []) [0..<length texts]"

text \<open>\<open>line.replace(/^\d+\.\s*/, '')\<close>\<close>

definition strip_number :: "jstring \<Rightarrow> jstring" where
  "strip_number line =
     (let digits = takeWhile is_digit line; rest = dropWhile is_digit line in
      if digits \<noteq> [] \<and> rest \<noteq> [] \<and> hd rest = 46 then dropWhile is_space (tl rest)
      else line)"

text \<open>\<open>text.split('\n').filter((l) => l.trim())\<close>\<close>

definition parse_lines :: "jstring \<Rightarrow> jstring list" where
  "parse_lines body = filter (\<lambda>l. trim l \<noteq> []) (split_on 10 body)"

text \<open>\<open>lines[j]?.replace(/^\d+\.\s*/, '').trim() || batch[j]\<close>\<close>

definition line_or_source :: "jstring list \<Rightarrow> jstring list \<Rightarrow> nat \<Rightarrow> jstring" where
  "line_or_source lines batch j =
     (if j < length lines \<and> trim (strip_number (lines ! j)) \<noteq> []
      then trim (strip_number (lines ! j)) else batch ! j)"

text \<open>The loop over \<open>j\<close> that stores the translations of one prompt batch.\<close>

definition gemini_store ::
  "jstring \<Rightarrow> jstring \<Rightarrow> nat list \<Rightarrow> nat \<Rightarrow> jstring list \<Rightarrow> jstring list
     \<Rightarrow> jstring option list \<times> (jstring \<rightharpoonup> jstring)
     \<Rightarrow> jstring option list \<times> (jstring \<rightharpoonup> jstring)" where
  "gemini_store source target uncachedIndices b batch lines acc =
     foldl (\<lambda>(results, cache) j.
              let translated = line_or_source lines batch j;
                  globalIdx = b + j;
                  originalIdx = uncachedIndices ! globalIdx
              in (results[originalIdx := Some translated],
                  cache(cacheKey source target (batch ! j) \<mapsto> translated)))
       acc [0..<length batch]"

function gemini_batches ::
  "env \<Rightarrow> jstring \<Rightarrow> jstring \<Rightarrow> jstring list \<Rightarrow> nat list \<Rightarrow> nat
     \<Rightarrow> jstring option list \<Rightarrow> state \<Rightarrow> (error + jstring option list) \<times> state" where
  "gemini_batches env source target uncachedTexts uncachedIndices b results st =
     (if b < length uncachedTexts then
        (let srcLang = (if source = js ''vi'' then js ''Vietnamese'' else js ''English'');
             tgtLang = (if target = js ''en'' then js ''English'' else js ''Vietnamese'');
             batch = slice uncachedTexts b (b + 20);
             st1 = st\<lparr>sent := sent st @ [GeminiRequest srcLang tgtLang batch]\<rparr>
         in case gemini_api env (length (sent st)) srcLang tgtLang batch of
              HttpError status err \<Rightarrow> (Inl (GeminiApiError status err), st1)
            | BadBody \<Rightarrow> (Inl BodyError, st1)
            | Body body \<Rightarrow>
                (let (results', cache') =
                       gemini_store source target uncachedIndices b batch (parse_lines body)
                         (results, translationCache st1)
                 in gemini_batches env source target uncachedTexts uncachedIndices (b + 20)
                      results' (st1\<lparr>translationCache := cache'\<rparr>)))
      else (Inr results, st))"
  by pat_completeness auto
termination
  by (relation "measure (\<lambda>(env, source, target, uncachedTexts, uncachedIndices, b, results, st).
        length uncachedTexts - b)") auto

declare gemini_batches.simps [simp del]

definition geminiTranslate ::
  "env \<Rightarrow> state \<Rightarrow> jstring list \<Rightarrow> jstring \<Rightarrow> jstring
     \<Rightarrow> (error + jstring option list) \<times> state" where
  "geminiTranslate env st texts source target =
     (let (results, uncachedTexts, uncachedIndices) =
            check_cache (translationCache st) source target texts
      in if length uncachedTexts = 0 then (Inr results, st)
         else gemini_batches env source target uncachedTexts uncachedIndices 0 results st)"

text \<open>\<open>for (let i = 0; i < uncachedTexts.length; i += 128) batches.push(...)\<close>\<close>

function make_batches :: "jstring list \<Rightarrow> nat \<Rightarrow> jstring list list" where
  "make_batches uncachedTexts i =
     (if i < length uncachedTexts
      then slice uncachedTexts i (i + 128) # make_batches uncachedTexts (i + 128)
      else [])"
  by pat_completeness auto
termination
  by (relation "measure (\<lambda>(uncachedTexts, i). length uncachedTexts - i)") auto

declare make_batches.simps [simp del]

text \<open>
  The loop over the translations of one bulk answer.  It runs over the translations
  that came back, not over the batch: past the end of \<open>uncachedIndices\<close> the write to
  \<open>results\<close> is lost, and past the end of the batch the key is built from \<open>undefined\<close>.
\<close>

definition google_store ::
  "jstring \<Rightarrow> jstring \<Rightarrow> nat list \<Rightarrow> jstring list \<Rightarrow> jstring list
     \<Rightarrow> jstring option list \<times> (jstring \<rightharpoonup> jstring) \<times> nat
     \<Rightarrow> jstring option list \<times> (jstring \<rightharpoonup> jstring) \<times> nat" where
  "google_store source target uncachedIndices batch translations acc =
     foldl (\<lambda>(results, cache, uncachedIdx) j.
              let translated = translations ! j;
                  results' = (if uncachedIdx < length uncachedIndices
                              then results[uncachedIndices ! uncachedIdx := Some translated]
                              else results);
                  source_text = (if j < length batch then batch ! j else js ''undefined'')
              in (results', cache(cacheKey source target source_text \<mapsto> translated),
                  uncachedIdx + 1))
       acc [0..<length translations]"

fun google_batches ::
  "env \<Rightarrow> jstring \<Rightarrow> jstring \<Rightarrow> nat list \<Rightarrow> jstring list list \<Rightarrow> nat
     \<Rightarrow> jstring option list \<Rightarrow> state \<Rightarrow> (error + jstring option list) \<times> state" where
  "google_batches env source target uncachedIndices [] uncachedIdx results st = (Inr results, st)"
| "google_batches env source target uncachedIndices (batch # batches) uncachedIdx results st =
     (let st1 = st\<lparr>sent := sent st @ [GoogleRequest batch source target]\<rparr>
      in case google_api env (length (sent st)) batch source target of
           HttpError status err \<Rightarrow> (Inl (GoogleApiError status err), st1)
         | BadBody \<Rightarrow> (Inl BodyError, st1)
         | Body translations \<Rightarrow>
             (let (results', cache', uncachedIdx') =
                    google_store source target uncachedIndices batch translations
                      (results, translationCache st1, uncachedIdx)
              in google_batches env source target uncachedIndices batches uncachedIdx'
                   results' (st1\<lparr>translationCache := cache'\<rparr>)))"

definition googleTranslate ::
  "env \<Rightarrow> state \<Rightarrow> jstring list \<Rightarrow> jstring \<Rightarrow> jstring
     \<Rightarrow> (error + jstring option list) \<times> state" where
  "googleTranslate env st texts source target =
     (if GOOGLE_API_KEY env = [] \<and> GEMINI_API_KEY env \<noteq> []
      then geminiTranslate env st texts source target
      else if GOOGLE_API_KEY env = [] then (Inl NoApiKey, st)
      else
        (let (results, uncachedTexts, uncachedIndices) =
               check_cache (translationCache st) source target texts
         in if length uncachedTexts = 0 then (Inr results, st)
            else google_batches env source target uncachedIndices
                   (make_batches uncachedTexts 0) 0 results st))"

section \<open>Span scorer and optimal segmenter (\<open>smartSegmentAndTranslate\<close>)\<close>

record WordBreakdown =
  word :: jstring
  translation :: "jstring option"
  fromDictionary :: bool

text \<open>
  A candidate span.  Its translation is \<open>undefined\<close> (\<open>None\<close>) when the bulk backend left
  a hole in its results.  Scores are small integers.  \<open>spans[i][len]\<close> is \<open>spans (i, len)\<close>,
  \<open>null\<close> is \<open>None\<close>.
\<close>

record Span =
  text' :: jstring
  translation :: "jstring option"
  fromDictionary :: bool
  score :: int

type_synonym spans = "nat \<times> nat \<Rightarrow> Span option"

definition MAX_SPAN :: "nat \<Rightarrow> nat" where
  "MAX_SPAN N = min 4 N"

text \<open>The lengths \<open>len = lo; len <= Math.min(MAX_SPAN, N - i); len++\<close>.\<close>

definition span_lengths :: "nat \<Rightarrow> nat \<Rightarrow> nat \<Rightarrow> nat list" where
  "span_lengths lo N i = [lo ..< min (MAX_SPAN N) (N - i) + 1]"

definition phrase_at :: "jstring list \<Rightarrow> nat \<Rightarrow> nat \<Rightarrow> jstring" where
  "phrase_at syllables i len = join_sp (slice syllables i (i + len))"

subsection \<open>Step 1: n-grams and their dictionary translations\<close>

definition collect_span ::
  "(jstring \<Rightarrow> jstring) \<Rightarrow> dict \<Rightarrow> jstring list \<Rightarrow> nat
     \<Rightarrow> spans \<times> (jstring \<times> nat \<times> nat) list \<Rightarrow> nat \<Rightarrow> spans \<times> (jstring \<times> nat \<times> nat) list" where
  "collect_span lc dict syllables i acc len =
     (case acc of (spans, toTranslate) \<Rightarrow>
        let phrase = phrase_at syllables i len;
            dictEntry = dict_entry lc dict phrase
        in if truthy dictEntry
           then (spans((i, len) \<mapsto>
                   \<lparr>text' = phrase, translation = dictEntry, fromDictionary = True,
                    score = int len * 10\<rparr>), toTranslate)
           else (spans, toTranslate @ [(phrase, i, len)]))"

definition collect_spans ::
  "(jstring \<Rightarrow> jstring) \<Rightarrow> dict \<Rightarrow> jstring list \<Rightarrow> spans \<times> (jstring \<times> nat \<times> nat) list" where
  "collect_spans lc dict syllables =
     (let N = length syllables in
      foldl (\<lambda>acc i. foldl (collect_span lc dict syllables i) acc (span_lengths 1 N i))
        (\<lambda>_. None, []) [0..<N])"

subsection \<open>Step 2: the unknown n-grams\<close>

definition fill_translated ::
  "(jstring \<times> nat \<times> nat) list \<Rightarrow> jstring option list \<Rightarrow> spans \<Rightarrow> spans" where
  "fill_translated toTranslate translations spans =
     foldl (\<lambda>spans j.
              case toTranslate ! j of (phrase, i, len) \<Rightarrow>
                spans((i, len) \<mapsto>
                  \<lparr>text' = phrase, translation = translations ! j, fromDictionary = False,
                   score = 0\<rparr>))
       spans [0..<length toTranslate]"

definition fill_untranslated :: "(jstring \<times> nat \<times> nat) list \<Rightarrow> spans \<Rightarrow> spans" where
  "fill_untranslated toTranslate spans =
     foldl (\<lambda>spans (phrase, i, len).
              spans((i, len) \<mapsto>
                \<lparr>text' = phrase, translation = Some phrase, fromDictionary = False, score = 0\<rparr>))
       spans toTranslate"

subsection \<open>Step 3: scores\<close>

text \<open>
  A loop whose body may throw: the state reached is kept, the rest of the loop is
  skipped.
\<close>

fun run_steps :: "('a \<Rightarrow> 's \<Rightarrow> error option \<times> 's) \<Rightarrow> 'a list \<Rightarrow> 's \<Rightarrow> error option \<times> 's" where
  "run_steps f [] s = (None, s)"
| "run_steps f (x # xs) s =
     (case f x s of (Some e, s') \<Rightarrow> (Some e, s') | (None, s') \<Rightarrow> run_steps f xs s')"

text \<open>\<open>(single.translation.split(',')[0] || '').trim().toLowerCase()\<close>\<close>

definition first_sense :: "(jstring \<Rightarrow> jstring) \<Rightarrow> jstring \<Rightarrow> jstring" where
  "first_sense lc t = lc (trim (hd (split_on 44 t)))"

text \<open>
  The loop over \<open>k\<close> that builds \<open>parts\<close>; reading \<open>split\<close> of an undefined translation
  throws.
\<close>

fun single_parts :: "(jstring \<Rightarrow> jstring) \<Rightarrow> spans \<Rightarrow> nat \<Rightarrow> nat list \<Rightarrow> jstring list option" where
  "single_parts lc spans i [] = Some []"
| "single_parts lc spans i (k # ks) =
     (case spans (i + k, 1) of
        None \<Rightarrow> single_parts lc spans i ks
      | Some single \<Rightarrow>
          (case translation single of
             None \<Rightarrow> None
           | Some t \<Rightarrow>
               (case single_parts lc spans i ks of
                  None \<Rightarrow> None
                | Some parts \<Rightarrow> Some (first_sense lc t # parts))))"

definition isCompound :: "jstring \<Rightarrow> jstring list \<Rightarrow> bool" where
  "isCompound compoundTrans parts \<longleftrightarrow>
     compoundTrans \<noteq> [] \<and>
     compoundTrans \<noteq> join_sp parts \<and>
     compoundTrans \<noteq> join_sp (rev parts) \<and>
     length (split_on 32 compoundTrans) \<le> 3"

definition score_span ::
  "(jstring \<Rightarrow> jstring) \<Rightarrow> nat \<Rightarrow> nat \<Rightarrow> spans \<times> dict \<Rightarrow> error option \<times> spans \<times> dict" where
  "score_span lc i len acc =
     (case acc of (spans, dict) \<Rightarrow>
        (case spans (i, len) of
           None \<Rightarrow> (None, spans, dict)
         | Some span \<Rightarrow>
             if fromDictionary span then (None, spans, dict)
             else
               (case translation span of
                  None \<Rightarrow> (Some TypeError, spans, dict)
                | Some t \<Rightarrow>
                    (let compoundTrans = trim (lc t) in
                     case single_parts lc spans i [0..<len] of
                       None \<Rightarrow> (Some TypeError, spans, dict)
                     | Some parts \<Rightarrow>
                         if isCompound compoundTrans parts
                         then (None, spans((i, len) \<mapsto> span\<lparr>score := int len * 8\<rparr>),
                               dict(lc (text' span) \<mapsto> t))
                         else (None, spans((i, len) \<mapsto> span\<lparr>score := int len * 1\<rparr>),
                               dict)))))"

definition score_spans ::
  "(jstring \<Rightarrow> jstring) \<Rightarrow> nat \<Rightarrow> spans \<times> dict \<Rightarrow> error option \<times> spans \<times> dict" where
  "score_spans lc N acc =
     run_steps (\<lambda>i. run_steps (score_span lc i) (span_lengths 2 N i)) [0..<N] acc"

text \<open>\<open>if (s && s.score === 0) s.score = 1\<close>\<close>

definition baseline_scores :: "nat \<Rightarrow> spans \<Rightarrow> spans" where
  "baseline_scores N spans =
     foldl (\<lambda>spans i.
              case spans (i, 1) of
                None \<Rightarrow> spans
              | Some s \<Rightarrow> if score s = 0 then spans((i, 1) \<mapsto> s\<lparr>score := 1\<rparr>) else spans)
       spans [0..<N]"

subsection \<open>Step 4: dynamic programming\<close>

text \<open>
  \<open>dp[j]\<close> is \<open>-Infinity\<close> (\<open>None\<close>) or a number; \<open>choice[j]\<close> is a hole (\<open>None\<close>) or
  \<open>{start, len}\<close>.
\<close>

type_synonym dp_state = "int option list \<times> (nat \<times> nat) option list"

text \<open>\<open>newScore > dp[i + len]\<close>\<close>

fun improves :: "int \<Rightarrow> int option \<Rightarrow> bool" where
  "improves newScore None = True"
| "improves newScore (Some old) = (newScore > old)"

definition relax :: "spans \<Rightarrow> nat \<Rightarrow> dp_state \<Rightarrow> nat \<Rightarrow> dp_state" where
  "relax spans i acc len =
     (case acc of (dp, choice) \<Rightarrow>
        (case spans (i, len) of
           None \<Rightarrow> (dp, choice)
         | Some span \<Rightarrow>
             (case dp ! i of
                None \<Rightarrow> (dp, choice)
              | Some d \<Rightarrow>
                  (let newScore = d + score span in
                   if improves newScore (dp ! (i + len))
                   then (dp[i + len := Some newScore], choice[i + len := Some (i, len)])
                   else (dp, choice)))))"

definition dp_step :: "spans \<Rightarrow> nat \<Rightarrow> dp_state \<Rightarrow> nat \<Rightarrow> dp_state" where
  "dp_step spans N acc i =
     (case acc of (dp, choice) \<Rightarrow>
        if dp ! i = None then (dp, choice)
        else foldl (relax spans i) (dp, choice) (span_lengths 1 N i))"

definition dp_solve :: "spans \<Rightarrow> nat \<Rightarrow> dp_state" where
  "dp_solve spans N =
     foldl (dp_step spans N) ((replicate (N + 1) None)[0 := Some 0], replicate (N + 1) None)
       [0..<N]"

subsection \<open>Step 5: backtracking\<close>

text \<open>
  \<open>while (pos > 0) { c = choice[pos]; segments.push(c); pos = c.start }\<close>.  Nothing in
  the loop itself makes \<open>pos\<close> decrease, so the model may not return (\<open>None\<close>); reading
  \<open>start\<close> of a hole throws.
\<close>

partial_function (option) backtrack ::
  "(nat \<times> nat) option list \<Rightarrow> nat \<Rightarrow> (nat \<times> nat) list \<Rightarrow> (error + (nat \<times> nat) list) option" where
  "backtrack choice pos segments =
     (if pos > 0 then
        (case choice ! pos of
           None \<Rightarrow> Some (Inl TypeError)
         | Some c \<Rightarrow> backtrack choice (fst c) (segments @ [c]))
      else Some (Inr segments))"

declare backtrack.simps [code]

text \<open>The final loop: \<open>spans[start][len]!\<close> is read without a check.\<close>

fun build_results :: "spans \<Rightarrow> (nat \<times> nat) list \<Rightarrow> error + WordBreakdown list" where
  "build_results spans [] = Inr []"
| "build_results spans ((start, len) # segments) =
     (case spans (start, len) of
        None \<Rightarrow> Inl TypeError
      | Some span \<Rightarrow>
          (case build_results spans segments of
             Inl e \<Rightarrow> Inl e
           | Inr results \<Rightarrow>
               Inr (WordBreakdown.make (text' span) (Span.translation span)
                      (Span.fromDictionary span) # results)))"

text \<open>Steps 1 and 2: the table of candidate spans, not yet scored.\<close>

definition candidate_spans :: "env \<Rightarrow> state \<Rightarrow> jstring list \<Rightarrow> (error + spans) \<times> state" where
  "candidate_spans env st syllables =
     (let (spans, toTranslate) = collect_spans (toLowerCase env) (dictionary st) syllables
      in if length toTranslate > 0 \<and> API_KEY env \<noteq> [] then
           (case googleTranslate env st (map fst toTranslate) (js ''vi'') (js ''en'') of
              (Inl e, st1) \<Rightarrow> (Inl e, st1)
            | (Inr translations, st1) \<Rightarrow>
                (Inr (fill_translated toTranslate translations spans), st1))
         else if length toTranslate > 0 then
           (Inr (fill_untranslated toTranslate spans), st)
         else (Inr spans, st))"

text \<open>Steps 1 to 3 and the baseline: the scored table.\<close>

definition scored_spans :: "env \<Rightarrow> state \<Rightarrow> jstring list \<Rightarrow> (error + spans) \<times> state" where
  "scored_spans env st syllables =
     (case candidate_spans env st syllables of
        (Inl e, st1) \<Rightarrow> (Inl e, st1)
      | (Inr spans0, st1) \<Rightarrow>
          (case score_spans (toLowerCase env) (length syllables) (spans0, dictionary st1) of
             (Some e, spans1, dict1) \<Rightarrow> (Inl e, st1\<lparr>dictionary := dict1\<rparr>)
           | (None, spans1, dict1) \<Rightarrow>
               (Inr (baseline_scores (length syllables) spans1), st1\<lparr>dictionary := dict1\<rparr>)))"

text \<open>Steps 4 and 5: \<open>segments\<close> after \<open>segments.reverse()\<close>.\<close>

definition optimal_segments :: "spans \<Rightarrow> nat \<Rightarrow> (error + (nat \<times> nat) list) option" where
  "optimal_segments spans N =
     (let (dp, choice) = dp_solve spans N
      in case backtrack choice N [] of
           None \<Rightarrow> None
         | Some (Inl e) \<Rightarrow> Some (Inl e)
         | Some (Inr segments) \<Rightarrow> Some (Inr (rev segments)))"

definition smartSegmentAndTranslate ::
  "env \<Rightarrow> state \<Rightarrow> jstring \<Rightarrow> ((error + WordBreakdown list) \<times> state) option" where
  "smartSegmentAndTranslate env st text =
     (let syllables = syllables_of text in
      if length syllables = 0 then Some (Inr [], st)
      else
        (case scored_spans env st syllables of
           (Inl e, st1) \<Rightarrow> Some (Inl e, st1)
         | (Inr spans, st1) \<Rightarrow>
             (case optimal_segments spans (length syllables) of
                None \<Rightarrow> None
              | Some (Inl e) \<Rightarrow> Some (Inl e, st1)
              | Some (Inr segments) \<Rightarrow> Some (build_results spans segments, st1))))"

text \<open>
  A list of \<open>(start, len)\<close> pairs tiles \<open>[a, b)\<close>: the first starts at \<open>a\<close>, each next one
  starts where the one before ends, the last ends at \<open>b\<close>, and none is empty.
\<close>

fun tiles :: "nat \<Rightarrow> (nat \<times> nat) list \<Rightarrow> nat \<Rightarrow> bool" where
  "tiles a [] b = (a = b)"
| "tiles a ((start, len) # segments) b = (start = a \<and> 1 \<le> len \<and> tiles (a + len) segments b)"

section \<open>The translate operation (\<open>handleTranslate\<close>)\<close>

datatype mode = ViToEn | EnToVi

record TranslateRequest =
  req_text :: "jstring option"
  req_mode :: "mode option"

datatype http_response =
    Status400 jstring
  | Status500 error
  | Status200 jstring "jstring option" "WordBreakdown list"

definition handleTranslate :: "env \<Rightarrow> state \<Rightarrow> TranslateRequest \<Rightarrow> (http_response \<times> state) option" where
  "handleTranslate env st body =
     (let mode = (case req_mode body of None \<Rightarrow> ViToEn | Some m \<Rightarrow> m) in
      case req_text body of
        None \<Rightarrow> Some (Status400 (js ''No text provided''), st)
      | Some text \<Rightarrow>
          if text = [] \<or> length (trim text) = 0
          then Some (Status400 (js ''No text provided''), st)
          else
            (let source = (if mode = ViToEn then js ''vi'' else js ''en'');
                 target = (if mode = ViToEn then js ''en'' else js ''vi'')
             in case googleTranslate env st [text] source target of
                  (Inl e, st1) \<Rightarrow> Some (Status500 e, st1)
                | (Inr sentence, st1) \<Rightarrow>
                    if mode = ViToEn then
                      (case smartSegmentAndTranslate env st1 text of
                         None \<Rightarrow> None
                       | Some (Inl e, st2) \<Rightarrow> Some (Status500 e, st2)
                       | Some (Inr words, st2) \<Rightarrow> Some (Status200 text (hd sentence) words, st2))
                    else Some (Status200 text (hd sentence) [], st1)))"

section \<open>Auxiliary notions for the proofs\<close>

text \<open>What one relaxation from start \<open>i\<close>, where \<open>dp[i] = d\<close>, leaves at position \<open>j\<close>.\<close>

definition relaxed :: "spans \<Rightarrow> nat \<Rightarrow> int \<Rightarrow> dp_state \<Rightarrow> nat \<Rightarrow> int option \<times> (nat \<times> nat) option" where
  "relaxed spans i d s j =
     (case s of (dp, choice) \<Rightarrow>
        (case spans (i, j - i) of
           None \<Rightarrow> (dp ! j, choice ! j)
         | Some sp \<Rightarrow>
             if improves (d + score sp) (dp ! j) then (Some (d + score sp), Some (i, j - i))
             else (dp ! j, choice ! j)))"

text \<open>
  The state of the solver when the starts below \<open>k\<close> have been processed: a position has
  a score exactly when it has a choice; the choice is a candidate already evaluated and
  gives the score of the position; every candidate already evaluated totals at most the
  score of the position, and when it totals exactly that, the choice starts no later.
\<close>

definition dp_inv :: "spans \<Rightarrow> nat \<Rightarrow> nat \<Rightarrow> dp_state \<Rightarrow> bool" where
  "dp_inv spans N k s =
     (case s of (dp, choice) \<Rightarrow>
        length dp = N + 1 \<and> length choice = N + 1 \<and> dp ! 0 = Some 0 \<and>
        (\<forall>j. 1 \<le> j \<and> j \<le> N \<longrightarrow>
           (dp ! j = None \<longleftrightarrow> choice ! j = None) \<and>
           (\<forall>c. choice ! j = Some c \<longrightarrow>
                fst c < k \<and> fst c < j \<and> fst c + snd c = j \<and> snd c \<le> 4 \<and>
                (\<exists>sp d. spans c = Some sp \<and> dp ! fst c = Some d \<and>
                        dp ! j = Some (d + score sp))) \<and>
           (\<forall>i sp d. i < k \<and> i < j \<and> j - i \<le> 4 \<and> spans (i, j - i) = Some sp \<and>
                      dp ! i = Some d \<longrightarrow>
                (\<exists>b c. dp ! j = Some b \<and> choice ! j = Some c \<and> d + score sp \<le> b \<and>
                       (d + score sp = b \<longrightarrow> fst c \<le> i)))))"









text \<open>
  A text is answered from the cache when the cached value is truthy.  The writes of the
  translations \<open>as\<close> of the uncached texts, in order, to \<open>results\<close> and to the cache; the
  texts that a request carries.
\<close>

definition cache_hit :: "(jstring \<rightharpoonup> jstring) \<Rightarrow> jstring \<Rightarrow> jstring \<Rightarrow> jstring \<Rightarrow> bool" where
  "cache_hit cache source target t = truthy (cache (cacheKey source target t))"

definition store_results :: "jstring option list \<Rightarrow> (nat \<times> jstring) list \<Rightarrow> jstring option list" where
  "store_results results writes = foldl (\<lambda>r (i, a). r[i := Some a]) results writes"





definition cached_results ::
  "(jstring \<rightharpoonup> jstring) \<Rightarrow> jstring \<Rightarrow> jstring \<Rightarrow> jstring list \<Rightarrow> jstring option list" where
  "cached_results cache source target texts =
     map (\<lambda>t. if cache_hit cache source target t then cache (cacheKey source target t) else None) texts"

text \<open>The language names of the prompt.\<close>

definition srcLang :: "jstring \<Rightarrow> jstring" where
  "srcLang source = (if source = js ''vi'' then js ''Vietnamese'' else js ''English'')"

definition tgtLang :: "jstring \<Rightarrow> jstring" where
  "tgtLang target = (if target = js ''en'' then js ''English'' else js ''Vietnamese'')"

section \<open>Evaluation rules\<close>

lemmas str_eval = js_def ascii_lower_def is_space_def is_punct_def is_digit_def trim_def
  replace_punct_def syllables_of_def slice_def truthy_def js_or_def dict_entry_def dict_hit_def

section \<open>Frequency aggregator: proofs\<close>

























section \<open>Greedy segmenter: proofs\<close>

lemma find_match_unfold:
  "find_match lc d syls i L =
     (if L > 1 then
        (if dict_hit lc d (join_sp (slice syls i (i + L))) then Some L
         else find_match lc d syls i (L - 1))
      else None)"
  by (cases L) simp_all

lemmas find_match_numeral = find_match_unfold [of _ _ _ _ "numeral k"] for k

lemma find_match_hit:
  "1 < len \<Longrightarrow> len \<le> L \<Longrightarrow> dict_hit lc d (join_sp (slice syls i (i + len))) \<Longrightarrow>
   (\<forall>l. len < l \<and> l \<le> L \<longrightarrow> \<not> dict_hit lc d (join_sp (slice syls i (i + l)))) \<Longrightarrow>
   find_match lc d syls i L = Some len"
proof (induction L)
  case 0
  then show ?case by simp
next
  case (Suc L)
  show ?case
  proof (cases "len = Suc L")
    case True
    with Suc.prems show ?thesis by simp
  next
    case False
    with Suc.prems have "len \<le> L" and "len < Suc L" by auto
    with Suc.prems have miss: "\<not> dict_hit lc d (join_sp (slice syls i (i + Suc L)))"
      by blast
    have "find_match lc d syls i L = Some len"
      using Suc.IH Suc.prems \<open>len \<le> L\<close> by simp
    with miss \<open>len \<le> L\<close> Suc.prems(1) show ?thesis by simp
  qed
qed

lemma find_match_miss:
  "(\<forall>l. 1 < l \<and> l \<le> L \<longrightarrow> \<not> dict_hit lc d (join_sp (slice syls i (i + l)))) \<Longrightarrow>
   find_match lc d syls i L = None"
  by (induction L) auto

lemma slice_append_at: "slice (pre @ xs) (length pre) (length pre + l) = take l xs"
  by (simp add: slice_def)

lemma segment_loop_done:
  "\<not> i < length syls \<Longrightarrow> segment_loop lc d syls i ws = ws"
  by (simp add: segment_loop.simps [of lc d syls i ws])

lemma segment_loop_hit:
  "i < length syls \<Longrightarrow> find_match lc d syls i (min 4 (length syls - i)) = Some len \<Longrightarrow>
   segment_loop lc d syls i ws
     = segment_loop lc d syls (i + len) (ws @ [join_sp (slice syls i (i + len))])"
  by (simp add: segment_loop.simps [of lc d syls i ws])

lemma segment_loop_miss:
  "i < length syls \<Longrightarrow> find_match lc d syls i (min 4 (length syls - i)) = None \<Longrightarrow>
   segment_loop lc d syls i ws = segment_loop lc d syls (i + 1) (ws @ [syls ! i])"
  by (simp add: segment_loop.simps [of lc d syls i ws])

lemma segment_loop_phrases:
  "longest_match_phrases lc d ps \<Longrightarrow>
   segment_loop lc d (pre @ concat ps) (length pre) words = words @ map join_sp ps"
proof (induction ps arbitrary: pre words)
  case Nil
  show ?case by (simp add: segment_loop_done)
next
  case (Cons p ps)
  let ?rest = "concat (p # ps)"
  let ?syls = "pre @ ?rest"
  let ?L = "min 4 (length ?syls - length pre)"
  from Cons.prems
  have all: "1 \<le> length p \<and> length p \<le> 4 \<and>
        (2 \<le> length p \<longrightarrow> dict_hit lc d (join_sp p)) \<and>
        (\<forall>len \<in> set [length p + 1 ..< min 4 (length ?rest) + 1].
            \<not> dict_hit lc d (join_sp (take len ?rest))) \<and>
        longest_match_phrases lc d ps"
    unfolding longest_match_phrases.simps Let_def .
  then have len: "1 \<le> length p" "length p \<le> 4"
    and hit: "2 \<le> length p \<longrightarrow> dict_hit lc d (join_sp p)"
    and rest: "longest_match_phrases lc d ps"
    by blast+
  have longer: "\<forall>l. length p < l \<and> l \<le> min 4 (length ?rest)
                   \<longrightarrow> \<not> dict_hit lc d (join_sp (take l ?rest))"
  proof (intro allI impI)
    fix l
    assume "length p < l \<and> l \<le> min 4 (length ?rest)"
    then have "l \<in> set [length p + 1 ..< min 4 (length ?rest) + 1]"
      by (simp only: set_upt atLeastLessThan_iff) arith
    with all show "\<not> dict_hit lc d (join_sp (take l ?rest))" by blast
  qed
  have lt: "length pre < length ?syls" using len by (cases p) simp_all
  have L: "?L = min 4 (length ?rest)" by simp
  have next_pos: "segment_loop lc d ?syls (length pre + length p) (words @ [join_sp p])
                    = words @ map join_sp (p # ps)"
    using Cons.IH [OF rest, of "pre @ p" "words @ [join_sp p]"] by simp
  show ?case
  proof (cases "2 \<le> length p")
    case True
    have "find_match lc d ?syls (length pre) ?L = Some (length p)"
    proof (rule find_match_hit)
      show "1 < length p" using True by simp
      show "length p \<le> ?L" using len by simp
      show "dict_hit lc d (join_sp (slice ?syls (length pre) (length pre + length p)))"
        using hit True by (simp add: slice_append_at)
      show "\<forall>l. length p < l \<and> l \<le> ?L
              \<longrightarrow> \<not> dict_hit lc d (join_sp (slice ?syls (length pre) (length pre + l)))"
        using longer unfolding L slice_append_at by blast
    qed
    moreover have "join_sp (slice ?syls (length pre) (length pre + length p)) = join_sp p"
      by (simp add: slice_append_at)
    ultimately show ?thesis
      using segment_loop_hit [OF lt, of lc d "length p" words] next_pos by simp
  next
    case False
    with len have "length p = 1" by simp
    then obtain s where p: "p = [s]" by (auto simp: length_Suc_conv)
    have "find_match lc d ?syls (length pre) ?L = None"
    proof (rule find_match_miss)
      show "\<forall>l. 1 < l \<and> l \<le> ?L
              \<longrightarrow> \<not> dict_hit lc d (join_sp (slice ?syls (length pre) (length pre + l)))"
        using longer p unfolding L slice_append_at by auto
    qed
    moreover have "?syls ! length pre = join_sp p" using p by (simp add: nth_append)
    ultimately show ?thesis
      using segment_loop_miss [OF lt, of lc d words] next_pos p by simp
  qed
qed

text \<open>
  C7, as amended.  When the syllables of the text are the concatenation of phrases of one
  to four syllables, every phrase of several syllables is a dictionary hit, and no longer
  dictionary hit of at most four syllables starts where a phrase starts, then
  \<open>segmentVietnamese\<close> returns exactly those phrases, in order.
\<close>

theorem segmentVietnamese_longest_phrases:
  assumes "syllables_of text = concat ps" and "longest_match_phrases lc dict ps"
  shows "segmentVietnamese lc dict text = map join_sp ps"
  using segment_loop_phrases [OF assms(2), of "[]" "[]"] assms(1)
  by (simp add: segmentVietnamese_def)

theorem segmentVietnamese_longest_phrases_witness:
  "syllables_of (js ''Cai nay, la!'') = concat [[js ''Cai'', js ''nay''], [js ''la'']]
   \<and> longest_match_phrases ascii_lower (map_of [(js ''cai nay'', js ''this'')])
        [[js ''Cai'', js ''nay''], [js ''la'']]
   \<and> segmentVietnamese ascii_lower (map_of [(js ''cai nay'', js ''this'')]) (js ''Cai nay, la!'')
        = [js ''Cai nay'', js ''la'']"
proof -
  have a: "syllables_of (js ''Cai nay, la!'') = concat [[js ''Cai'', js ''nay''], [js ''la'']]"
    by (simp add: str_eval)
  have b: "longest_match_phrases ascii_lower (map_of [(js ''cai nay'', js ''this'')])
        [[js ''Cai'', js ''nay''], [js ''la'']]"
    by (simp add: str_eval)
  have c: "map join_sp [[js ''Cai'', js ''nay''], [js ''la'']] = [js ''Cai nay'', js ''la'']"
    by (simp add: str_eval)
  from segmentVietnamese_longest_phrases [OF a b] a b c show ?thesis by simp
qed

text \<open>
  C7 as stated fails: with the phrases \<open>a b\<close>, \<open>a\<close> and \<open>b\<close> in the dictionary, the text
  \<open>a b\<close> is the concatenation of the phrases \<open>a\<close> and \<open>b\<close>, and the segmenter returns the
  single phrase \<open>a b\<close>.
\<close>

theorem segmentVietnamese_phrases_counterexample:
  "dict_hit ascii_lower
     (map_of [(js ''a b'', js ''x''), (js ''a'', js ''y''), (js ''b'', js ''z'')]) (js ''a'')
   \<and> dict_hit ascii_lower
     (map_of [(js ''a b'', js ''x''), (js ''a'', js ''y''), (js ''b'', js ''z'')]) (js ''b'')
   \<and> syllables_of (js ''a b'') = concat [[js ''a''], [js ''b'']]
   \<and> segmentVietnamese ascii_lower
     (map_of [(js ''a b'', js ''x''), (js ''a'', js ''y''), (js ''b'', js ''z'')]) (js ''a b'')
       = [js ''a b'']
   \<and> [js ''a b''] \<noteq> map join_sp [[js ''a''], [js ''b'']]"
proof -
  have s: "syllables_of (js ''a b'') = [js ''a'', js ''b'']"
    by (simp add: str_eval)
  have g: "segment_loop ascii_lower
     (map_of [(js ''a b'', js ''x''), (js ''a'', js ''y''), (js ''b'', js ''z'')])
     [js ''a'', js ''b''] 0 [] = [js ''a b'']"
    by (simp add: segment_loop_hit segment_loop_done find_match_numeral str_eval)
  show ?thesis
    using s g by (simp add: segmentVietnamese_def) (simp add: str_eval)
qed

section \<open>Dynamic programming: proofs\<close>

lemmas dp_eval = dp_solve_def dp_step_def relax_def span_lengths_def MAX_SPAN_def

lemma relax_length:
  "relax spans i (dp, choice) len = (dp', choice') \<Longrightarrow>
   length dp' = length dp \<and> length choice' = length choice"
  by (auto simp: relax_def Let_def split: option.splits if_splits)

lemma relax_other:
  "relax spans i (dp, choice) len = (dp', choice') \<Longrightarrow> j \<noteq> i + len \<Longrightarrow>
   dp' ! j = dp ! j \<and> choice' ! j = choice ! j"
  by (auto simp: relax_def Let_def split: option.splits if_splits)

lemma relax_at:
  "relax spans i (dp, choice) len = (dp', choice') \<Longrightarrow> dp ! i = Some d \<Longrightarrow>
   i + len < length dp \<Longrightarrow> length choice = length dp \<Longrightarrow>
   (dp' ! (i + len), choice' ! (i + len)) = relaxed spans i d (dp, choice) (i + len)"
  by (auto simp: relax_def relaxed_def Let_def split: option.splits if_splits)

lemma relaxed_cong:
  "dp1 ! j = dp ! j \<Longrightarrow> choice1 ! j = choice ! j \<Longrightarrow>
   relaxed spans i d (dp1, choice1) j = relaxed spans i d (dp, choice) j"
  by (simp add: relaxed_def split: option.splits)

lemma inner_fold:
  assumes "dp ! i = Some d" and "length choice = length dp" 
  shows "i + L < length dp \<Longrightarrow> foldl (relax spans i) (dp, choice) [1..<L + 1] = (dp', choice') \<Longrightarrow>
         length dp' = length dp \<and> length choice' = length choice \<and>
         (\<forall>j. (dp' ! j, choice' ! j) =
               (if i < j \<and> j \<le> i + L then relaxed spans i d (dp, choice) j
                else (dp ! j, choice ! j)))"
proof (induction L arbitrary: dp' choice')
  case 0
  then show ?case by auto
next
  case (Suc L)
  obtain dp1 choice1 where mid: "foldl (relax spans i) (dp, choice) [1..<L + 1] = (dp1, choice1)"
    by (cases "foldl (relax spans i) (dp, choice) [1..<L + 1]")
  from Suc.prems have lt: "i + L < length dp" by simp
  from Suc.IH [OF lt mid]
  have len1: "length dp1 = length dp" "length choice1 = length choice"
    and pt1: "\<And>j. (dp1 ! j, choice1 ! j) =
               (if i < j \<and> j \<le> i + L then relaxed spans i d (dp, choice) j
                else (dp ! j, choice ! j))"
    by blast+
  from Suc.prems(2) mid have last: "relax spans i (dp1, choice1) (Suc L) = (dp', choice')"
    by simp
  have di: "dp1 ! i = Some d" using pt1 [of i] assms(1) by simp
  have same: "dp1 ! (i + Suc L) = dp ! (i + Suc L)" "choice1 ! (i + Suc L) = choice ! (i + Suc L)"
    using pt1 [of "i + Suc L"] by simp_all
  have at: "(dp' ! (i + Suc L), choice' ! (i + Suc L)) = relaxed spans i d (dp, choice) (i + Suc L)"
    using relax_at [OF last di] Suc.prems(1) len1 assms(2) relaxed_cong [OF same]
    by simp
  have other: "\<And>j. j \<noteq> i + Suc L \<Longrightarrow> dp' ! j = dp1 ! j \<and> choice' ! j = choice1 ! j"
    using relax_other [OF last] by blast
  have "(dp' ! j, choice' ! j) =
               (if i < j \<and> j \<le> i + Suc L then relaxed spans i d (dp, choice) j
                else (dp ! j, choice ! j))" for j
  proof (cases "j = i + Suc L")
    case True
    then show ?thesis using at by simp
  next
    case False
    then show ?thesis using other [OF False] pt1 [of j] by auto
  qed
  then show ?case using relax_length [OF last] len1 by simp
qed

lemma dp_step_point:
  assumes len: "length dp = N + 1" "length choice = N + 1" and k: "k < N"
    and step: "dp_step spans N (dp, choice) k = (dp', choice')"
  shows "length dp' = N + 1 \<and> length choice' = N + 1 \<and>
         (\<forall>j. (dp' ! j, choice' ! j) =
            (case dp ! k of
               None \<Rightarrow> (dp ! j, choice ! j)
             | Some d \<Rightarrow>
                 if k < j \<and> j \<le> N \<and> j - k \<le> 4 then relaxed spans k d (dp, choice) j
                 else (dp ! j, choice ! j)))"
proof (cases "dp ! k")
  case None
  with step len show ?thesis by (simp add: dp_step_def)
next
  case (Some d)
  let ?L = "min (MAX_SPAN N) (N - k)"
  from step Some have f: "foldl (relax spans k) (dp, choice) [1..<?L + 1] = (dp', choice')"
    by (simp add: dp_step_def span_lengths_def)
  have lt: "k + ?L < length dp" using len k by simp
  have range: "(k < j \<and> j \<le> k + ?L) = (k < j \<and> j \<le> N \<and> j - k \<le> 4)" for j
    using k by (auto simp: MAX_SPAN_def)
  from inner_fold [OF Some _ lt f] len range Some show ?thesis by simp
qed


lemma dp_inv_len:
  "dp_inv spans N k (dp, choice) \<Longrightarrow> length dp = N + 1 \<and> length choice = N + 1 \<and> dp ! 0 = Some 0"
  by (simp add: dp_inv_def)

lemma dp_inv_none:
  "dp_inv spans N k (dp, choice) \<Longrightarrow> 1 \<le> j \<Longrightarrow> j \<le> N \<Longrightarrow> (dp ! j = None) = (choice ! j = None)"
  unfolding dp_inv_def by simp

lemma dp_inv_choice:
  "dp_inv spans N k (dp, choice) \<Longrightarrow> 1 \<le> j \<Longrightarrow> j \<le> N \<Longrightarrow> choice ! j = Some c \<Longrightarrow>
   fst c < k \<and> fst c < j \<and> fst c + snd c = j \<and> snd c \<le> 4 \<and>
   (\<exists>sp d. spans c = Some sp \<and> dp ! fst c = Some d \<and> dp ! j = Some (d + score sp))"
  unfolding dp_inv_def prod.case by blast

lemma dp_inv_cand:
  "dp_inv spans N k (dp, choice) \<Longrightarrow> 1 \<le> j \<Longrightarrow> j \<le> N \<Longrightarrow> i < k \<Longrightarrow> i < j \<Longrightarrow>
   j - i \<le> 4 \<Longrightarrow> spans (i, j - i) = Some sp \<Longrightarrow> dp ! i = Some d \<Longrightarrow>
   \<exists>b c. dp ! j = Some b \<and> choice ! j = Some c \<and> d + score sp \<le> b \<and>
         (d + score sp = b \<longrightarrow> fst c \<le> i)"
  unfolding dp_inv_def prod.case by blast

lemma dp_inv_init:
  "dp_inv spans N 0 ((replicate (N + 1) None)[0 := Some 0], replicate (N + 1) None)"
  by (auto simp: dp_inv_def nth_list_update)

lemma improves_iff: "improves x v \<longleftrightarrow> (\<forall>b. v = Some b \<longrightarrow> b < x)"
  by (cases v) auto

lemma dp_inv_step:
  assumes inv: "dp_inv spans N k (dp, choice)" and k: "k < N"
    and step: "dp_step spans N (dp, choice) k = (dp', choice')"
  shows "dp_inv spans N (Suc k) (dp', choice')"
proof -
  from dp_inv_len [OF inv] have len: "length dp = N + 1" "length choice = N + 1"
    and zero: "dp ! 0 = Some 0" by simp_all
  from dp_step_point [OF len k step]
  have len': "length dp' = N + 1" "length choice' = N + 1"
    and pt: "\<And>j. (dp' ! j, choice' ! j) =
            (case dp ! k of
               None \<Rightarrow> (dp ! j, choice ! j)
             | Some d \<Rightarrow>
                 if k < j \<and> j \<le> N \<and> j - k \<le> 4 then relaxed spans k d (dp, choice) j
                 else (dp ! j, choice ! j))"
    by blast+
  have keep: "dp' ! j = dp ! j \<and> choice' ! j = choice ! j" if "j \<le> k" for j
    using pt [of j] that by (auto split: option.splits)
  have main: "(dp' ! j = None \<longleftrightarrow> choice' ! j = None) \<and>
           (\<forall>c. choice' ! j = Some c \<longrightarrow>
                fst c < Suc k \<and> fst c < j \<and> fst c + snd c = j \<and> snd c \<le> 4 \<and>
                (\<exists>sp d. spans c = Some sp \<and> dp' ! fst c = Some d \<and>
                        dp' ! j = Some (d + score sp))) \<and>
           (\<forall>i sp d. i < Suc k \<and> i < j \<and> j - i \<le> 4 \<and> spans (i, j - i) = Some sp \<and>
                      dp' ! i = Some d \<longrightarrow>
                (\<exists>b c. dp' ! j = Some b \<and> choice' ! j = Some c \<and> d + score sp \<le> b \<and>
                       (d + score sp = b \<longrightarrow> fst c \<le> i)))"
    if j: "1 \<le> j" "j \<le> N" for j
  proof -
    note none = dp_inv_none [OF inv j]
    note ch = dp_inv_choice [OF inv j]
    note cand = dp_inv_cand [OF inv j]
    consider
        (updated) d sp where "dp ! k = Some d" "k < j" "j - k \<le> 4" "spans (k, j - k) = Some sp"
          "improves (d + score sp) (dp ! j)"
      | (kept_cand) d sp where "dp ! k = Some d" "k < j" "j - k \<le> 4" "spans (k, j - k) = Some sp"
          "\<not> improves (d + score sp) (dp ! j)"
      | (no_cand) "dp ! k = None \<or> \<not> k < j \<or> \<not> j - k \<le> 4 \<or> spans (k, j - k) = None"
      by (cases "dp ! k"; cases "spans (k, j - k)") auto
    then show ?thesis
    proof cases
      case updated
      have new: "dp' ! j = Some (d + score sp)" "choice' ! j = Some (k, j - k)"
        using pt [of j] updated j by (simp_all add: relaxed_def)
      have dk: "dp' ! k = Some d" using keep [of k] updated by simp
      have c1: "dp' ! j = None \<longleftrightarrow> choice' ! j = None" using new by simp
      have c2: "\<forall>c. choice' ! j = Some c \<longrightarrow>
                fst c < Suc k \<and> fst c < j \<and> fst c + snd c = j \<and> snd c \<le> 4 \<and>
                (\<exists>sp d. spans c = Some sp \<and> dp' ! fst c = Some d \<and>
                        dp' ! j = Some (d + score sp))"
        using new dk updated by auto
      have c3: "\<exists>b c. dp' ! j = Some b \<and> choice' ! j = Some c \<and> d' + score sp' \<le> b \<and>
                       (d' + score sp' = b \<longrightarrow> fst c \<le> i)"
        if i: "i < Suc k" "i < j" "j - i \<le> 4" "spans (i, j - i) = Some sp'" "dp' ! i = Some d'"
        for i sp' d'
      proof (cases "i = k")
        case True
        with i updated dk have "sp' = sp" "d' = d" by simp_all
        with new True show ?thesis by simp
      next
        case False
        with i have ik: "i < k" by simp
        with i keep [of i] have "dp ! i = Some d'" by simp
        from cand [OF ik i(2) i(3) i(4) this]
        obtain b where b: "dp ! j = Some b" "d' + score sp' \<le> b" by blast
        with updated have "b < d + score sp" by (simp add: improves_iff)
        with b new show ?thesis by simp
      qed
      from c1 c2 c3 show ?thesis by blast
    next
      case kept_cand
      have same: "dp' ! j = dp ! j" "choice' ! j = choice ! j"
        using pt [of j] kept_cand j by (simp_all add: relaxed_def)
      have dk: "dp' ! k = Some d" using keep [of k] kept_cand by simp
      from kept_cand obtain b where b: "dp ! j = Some b" "d + score sp \<le> b"
        by (cases "dp ! j") auto
      with none obtain c where c: "choice ! j = Some c" by auto
      have c1: "dp' ! j = None \<longleftrightarrow> choice' ! j = None" using same none by simp
      have c2: "\<forall>c. choice' ! j = Some c \<longrightarrow>
                fst c < Suc k \<and> fst c < j \<and> fst c + snd c = j \<and> snd c \<le> 4 \<and>
                (\<exists>sp d. spans c = Some sp \<and> dp' ! fst c = Some d \<and>
                        dp' ! j = Some (d + score sp))"
      proof (intro allI impI)
        fix c assume "choice' ! j = Some c"
        then have cj: "choice ! j = Some c" using same by simp
        from ch [OF cj] keep [of "fst c"] same
        show "fst c < Suc k \<and> fst c < j \<and> fst c + snd c = j \<and> snd c \<le> 4 \<and>
                (\<exists>sp d. spans c = Some sp \<and> dp' ! fst c = Some d \<and>
                        dp' ! j = Some (d + score sp))"
          by auto
      qed
      have c3: "\<exists>b c. dp' ! j = Some b \<and> choice' ! j = Some c \<and> d' + score sp' \<le> b \<and>
                       (d' + score sp' = b \<longrightarrow> fst c \<le> i)"
        if i: "i < Suc k" "i < j" "j - i \<le> 4" "spans (i, j - i) = Some sp'" "dp' ! i = Some d'"
        for i sp' d'
      proof (cases "i = k")
        case True
        with i kept_cand dk have "sp' = sp" "d' = d" by simp_all
        moreover from ch [OF c] have "fst c \<le> k" by simp
        ultimately show ?thesis using b c same True by simp
      next
        case False
        with i have ik: "i < k" by simp
        with i keep [of i] have "dp ! i = Some d'" by simp
        from cand [OF ik i(2) i(3) i(4) this] same show ?thesis by simp
      qed
      from c1 c2 c3 show ?thesis by blast
    next
      case no_cand
      have same: "dp' ! j = dp ! j" "choice' ! j = choice ! j"
        using pt [of j] no_cand j by (auto simp: relaxed_def split: option.splits if_splits)
      have c1: "dp' ! j = None \<longleftrightarrow> choice' ! j = None" using same none by simp
      have c2: "\<forall>c. choice' ! j = Some c \<longrightarrow>
                fst c < Suc k \<and> fst c < j \<and> fst c + snd c = j \<and> snd c \<le> 4 \<and>
                (\<exists>sp d. spans c = Some sp \<and> dp' ! fst c = Some d \<and>
                        dp' ! j = Some (d + score sp))"
      proof (intro allI impI)
        fix c assume "choice' ! j = Some c"
        then have cj: "choice ! j = Some c" using same by simp
        from ch [OF cj] keep [of "fst c"] same
        show "fst c < Suc k \<and> fst c < j \<and> fst c + snd c = j \<and> snd c \<le> 4 \<and>
                (\<exists>sp d. spans c = Some sp \<and> dp' ! fst c = Some d \<and>
                        dp' ! j = Some (d + score sp))"
          by auto
      qed
      have c3: "\<exists>b c. dp' ! j = Some b \<and> choice' ! j = Some c \<and> d' + score sp' \<le> b \<and>
                       (d' + score sp' = b \<longrightarrow> fst c \<le> i)"
        if i: "i < Suc k" "i < j" "j - i \<le> 4" "spans (i, j - i) = Some sp'" "dp' ! i = Some d'"
        for i sp' d'
      proof (cases "i = k")
        case True
        with i keep [of k] no_cand show ?thesis by auto
      next
        case False
        with i have ik: "i < k" by simp
        with i keep [of i] have "dp ! i = Some d'" by simp
        from cand [OF ik i(2) i(3) i(4) this] same show ?thesis by simp
      qed
      from c1 c2 c3 show ?thesis by blast
    qed
  qed
  have z: "dp' ! 0 = Some 0" using keep [of 0] zero by simp
  show ?thesis
    unfolding dp_inv_def prod.case using len' z main by blast
qed

lemma dp_inv_fold:
  "k \<le> N \<Longrightarrow> dp_inv spans N k (foldl (dp_step spans N)
      ((replicate (N + 1) None)[0 := Some 0], replicate (N + 1) None) [0..<k])"
proof (induction k)
  case 0
  show ?case using dp_inv_init by simp
next
  case (Suc k)
  let ?s = "foldl (dp_step spans N)
      ((replicate (N + 1) None)[0 := Some 0], replicate (N + 1) None) [0..<k]"
  obtain dp choice where s: "?s = (dp, choice)" by (cases ?s)
  obtain dp' choice' where s': "dp_step spans N (dp, choice) k = (dp', choice')"
    by (cases "dp_step spans N (dp, choice) k")
  from Suc have "dp_inv spans N k (dp, choice)" using s by simp
  from dp_inv_step [OF this _ s'] Suc.prems have "dp_inv spans N (Suc k) (dp', choice')" by simp
  then show ?case using s s' by simp
qed

lemma dp_inv_solve: "dp_inv spans N N (dp_solve spans N)"
  using dp_inv_fold [of N N spans] by (simp add: dp_solve_def)

lemma relax_no_improvement:
  "spans (i, len) = Some sp \<Longrightarrow> dp ! i = Some d \<Longrightarrow> dp ! (i + len) = Some old \<Longrightarrow>
   d + score sp \<le> old \<Longrightarrow> relax spans i (dp, choice) len = (dp, choice)"
  by (simp add: relax_def)

lemma dp_solve_choice:
  assumes solve: "dp_solve spans N = (dp, choice)" and j: "1 \<le> j" "j \<le> N"
    and cand: "i < j" "j - i \<le> 4" "spans (i, j - i) = Some sp" "dp ! i = Some d"
  shows "\<exists>i0 l0 sp0 d0. choice ! j = Some (i0, l0) \<and> i0 + l0 = j \<and> spans (i0, l0) = Some sp0 \<and>
           dp ! i0 = Some d0 \<and> dp ! j = Some (d0 + score sp0) \<and>
           d + score sp \<le> d0 + score sp0 \<and> (d + score sp = d0 + score sp0 \<longrightarrow> i0 \<le> i)"
proof -
  have inv: "dp_inv spans N N (dp, choice)" using dp_inv_solve [of spans N] solve by simp
  from cand j have iN: "i < N" by simp
  from dp_inv_cand [OF inv j iN cand]
  obtain b c where b: "dp ! j = Some b" "choice ! j = Some c" "d + score sp \<le> b"
    "d + score sp = b \<longrightarrow> fst c \<le> i" by blast
  from dp_inv_choice [OF inv j b(2)]
  obtain sp0 d0 where c: "fst c + snd c = j" "spans c = Some sp0" "dp ! fst c = Some d0"
    "dp ! j = Some (d0 + score sp0)" by blast
  with b have "b = d0 + score sp0" by simp
  with b c show ?thesis
    by (intro exI [of _ "fst c"] exI [of _ "snd c"] exI [of _ sp0] exI [of _ d0]) simp
qed

text \<open>
  C3.  A relaxation leaves \<open>dp\<close> and \<open>choice\<close> as they are unless the new total is
  strictly greater than \<open>dp[i + len]\<close>.  In the solved table, for a position \<open>j\<close> and any
  candidate span \<open>(i, j - i)\<close> ending at \<open>j\<close> from a reachable start: \<open>choice[j]\<close> is a
  candidate ending at \<open>j\<close> whose total is \<open>dp[j]\<close> and is at least the candidate's total,
  and when the two totals are equal, \<open>choice[j]\<close> starts no later than the candidate; so
  of two candidates with equal totals the one with the larger start is never retained.
\<close>

theorem dp_solve_tie_break:
  assumes solve: "dp_solve spans N = (dp, choice)" and j: "1 \<le> j" "j \<le> N"
    and cand: "i < j" "j - i \<le> 4" "spans (i, j - i) = Some sp" "dp ! i = Some d"
  shows "(\<forall>dp0 choice0 i' len sp' d' old.
            spans (i', len) = Some sp' \<and> dp0 ! i' = Some d' \<and> dp0 ! (i' + len) = Some old \<and>
            d' + score sp' \<le> old \<longrightarrow> relax spans i' (dp0, choice0) len = (dp0, choice0))
       \<and> (\<exists>i0 l0 sp0 d0. choice ! j = Some (i0, l0) \<and> i0 + l0 = j \<and> spans (i0, l0) = Some sp0 \<and>
            dp ! i0 = Some d0 \<and> dp ! j = Some (d0 + score sp0) \<and>
            d + score sp \<le> d0 + score sp0 \<and> (d + score sp = d0 + score sp0 \<longrightarrow> i0 \<le> i))
       \<and> (\<forall>i2 sp2 d2. i < i2 \<and> i2 < j \<and> spans (i2, j - i2) = Some sp2 \<and> dp ! i2 = Some d2 \<and>
            d2 + score sp2 = d + score sp \<longrightarrow> choice ! j \<noteq> Some (i2, j - i2))"
proof (intro conjI allI impI)
  fix dp0 choice0 i' len sp' d' old
  assume "spans (i', len) = Some sp' \<and> dp0 ! i' = Some d' \<and> dp0 ! (i' + len) = Some old \<and>
            d' + score sp' \<le> old"
  then show "relax spans i' (dp0, choice0) len = (dp0, choice0)"
    by (simp add: relax_no_improvement)
next
  show "\<exists>i0 l0 sp0 d0. choice ! j = Some (i0, l0) \<and> i0 + l0 = j \<and> spans (i0, l0) = Some sp0 \<and>
            dp ! i0 = Some d0 \<and> dp ! j = Some (d0 + score sp0) \<and>
            d + score sp \<le> d0 + score sp0 \<and> (d + score sp = d0 + score sp0 \<longrightarrow> i0 \<le> i)"
    using assms by (rule dp_solve_choice)
next
  fix i2 sp2 d2
  assume a: "i < i2 \<and> i2 < j \<and> spans (i2, j - i2) = Some sp2 \<and> dp ! i2 = Some d2 \<and>
            d2 + score sp2 = d + score sp"
  from dp_solve_choice [OF assms]
  obtain i0 l0 sp0 d0 where c: "choice ! j = Some (i0, l0)" "i0 + l0 = j" "spans (i0, l0) = Some sp0"
    "dp ! i0 = Some d0" "dp ! j = Some (d0 + score sp0)"
    "d + score sp \<le> d0 + score sp0" "d + score sp = d0 + score sp0 \<longrightarrow> i0 \<le> i"
    by blast
  show "choice ! j \<noteq> Some (i2, j - i2)"
  proof
    assume "choice ! j = Some (i2, j - i2)"
    with c have "i0 = i2" "sp0 = sp2" "d0 = d2" using a by auto
    with c a show False by simp
  qed
qed

theorem dp_solve_tie_break_witness:
  "dp_solve (\<lambda>(i, len). Some \<lparr>text' = [], translation = None, fromDictionary = False, score = int len\<rparr>) 2
     = ([Some 0, Some 1, Some 2], [None, Some (0, 1), Some (0, 2)])
   \<and> (\<exists>i0 l0 sp0 d0. [None, Some (0, 1), Some (0, 2)] ! 2 = Some (i0, l0) \<and> i0 + l0 = 2 \<and> 
         [Some 0, Some 1, Some (2::int)] ! i0 = Some d0 \<and> 
         (\<lambda>(i, len). Some \<lparr>text' = [], translation = None, fromDictionary = False, score = int len\<rparr>) (i0, l0) = Some sp0 \<and>
         1 + 1 \<le> d0 + score sp0 \<and> (1 + 1 = d0 + score sp0 \<longrightarrow> i0 \<le> 1))
   \<and> [None, Some (0, 1), Some (0, 2)] ! 2 \<noteq> Some (1::nat, 1::nat)"
proof -
  let ?spans = "\<lambda>(i::nat, len::nat). Some \<lparr>text' = [], translation = None, fromDictionary = False, score = int len\<rparr>"
  have s: "dp_solve ?spans 2 = ([Some 0, Some 1, Some 2], [None, Some (0, 1), Some (0, 2)])"
    by (simp add: dp_eval upt_rec numeral_2_eq_2 numeral_3_eq_3)
  have c: "(1::nat) < 2" "2 - (1::nat) \<le> 4" 
    "?spans (1, 2 - 1) = Some \<lparr>text' = [], translation = None, fromDictionary = False, score = 1\<rparr>"
    "[Some 0, Some 1, Some (2::int)] ! 1 = Some 1"
    by simp_all
  have j: "(1::nat) \<le> 2" "(2::nat) \<le> 2" by simp_all
  from dp_solve_tie_break [OF s j c] s show ?thesis by simp
qed

section \<open>Exact cover: proofs\<close>

subsection \<open>Tilings\<close>







subsection \<open>Backtracking\<close>






subsection \<open>The span table\<close>









subsection \<open>Scoring keeps the shape of the table\<close>














lemmas nat_eval = upt_rec numeral_2_eq_2 numeral_3_eq_3



subsection \<open>Lexicon precedence\<close>

lemma tiles_nonempty: "tiles a run b \<Longrightarrow> a < b \<Longrightarrow> run \<noteq> []"
  by auto








subsection \<open>Span scorer\<close>

















lemmas oracle_eval = googleTranslate_def geminiTranslate_def check_cache_def cacheKey_def
  google_store_def gemini_store_def line_or_source_def parse_lines_def strip_number_def







section \<open>Translation oracle client: proofs\<close>

subsection \<open>Cache consultation\<close>




subsection \<open>Writes to the results and to the cache\<close>

lemma store_results_length [simp]: "length (store_results results ws) = length results"
  unfolding store_results_def by (induction ws arbitrary: results) auto





lemma cacheKey_inj [simp]: "cacheKey s t x = cacheKey s t y \<longleftrightarrow> x = y"
  by (simp add: cacheKey_def)




subsection \<open>The prompt backend\<close>

















lemma length_cached_results [simp]: "length (cached_results cache s t texts) = length texts"
  by (simp add: cached_results_def)








subsection \<open>The identity fallback of the prompt backend\<close>







subsection \<open>The origin of an output word\<close>







subsection \<open>Validation of the request\<close>

lemma trim_Nil [simp]: "trim [] = []"
  by (simp add: trim_def)

lemma blank_no_syllables: "trim text = [] \<Longrightarrow> syllables_of text = []"
  by (simp add: syllables_of_def replace_punct_def)

lemma no_syllables_no_words:
  "syllables_of text = [] \<Longrightarrow> smartSegmentAndTranslate env st text = Some (Inr [], st)"
  by (simp add: smartSegmentAndTranslate_def)

text \<open>
  C8 (amended).  The translate operation rejects a request with status 400 and
  \<open>No text provided\<close>, leaving the state as it was (nothing is sent to the oracle), when
  the text is absent, empty or only white space, and in no other case.  Such a text has
  no syllables.  A text that has no syllables but is not blank is not rejected:
  \<open>smartSegmentAndTranslate\<close> returns the empty list for it without touching the state,
  and the translate operation, having sent the sentence to the oracle, answers with
  status 200, the translation of the sentence and no words.
\<close>

theorem handleTranslate_rejects_blank_text:
  "((req_text body = None \<or> (\<exists>blank. req_text body = Some blank \<and> trim blank = []))
      \<longrightarrow> handleTranslate env st body = Some (Status400 (js ''No text provided''), st))
   \<and> (req_text body = Some text \<and> trim text \<noteq> []
      \<longrightarrow> (\<forall>msg st'. handleTranslate env st body \<noteq> Some (Status400 msg, st')))
   \<and> (trim text = [] \<longrightarrow> syllables_of text = [])
   \<and> (syllables_of text = [] \<longrightarrow> smartSegmentAndTranslate env st text = Some (Inr [], st))
   \<and> (req_text body = Some text \<and> trim text \<noteq> [] \<and> syllables_of text = [] \<and>
       mode = (case req_mode body of None \<Rightarrow> ViToEn | Some m \<Rightarrow> m) \<and>
       googleTranslate env st [text] (if mode = ViToEn then js ''vi'' else js ''en'')
          (if mode = ViToEn then js ''en'' else js ''vi'') = (Inr sentence, st1)
      \<longrightarrow> handleTranslate env st body = Some (Status200 text (hd sentence) [], st1))"
proof (intro conjI impI)
  assume "req_text body = None \<or> (\<exists>blank. req_text body = Some blank \<and> trim blank = [])"
  then show "handleTranslate env st body = Some (Status400 (js ''No text provided''), st)"
    by (auto simp: handleTranslate_def Let_def)
next
  assume a: "req_text body = Some text \<and> trim text \<noteq> []"
  then have ne: "text \<noteq> []" by auto
  show "\<forall>msg st'. handleTranslate env st body \<noteq> Some (Status400 msg, st')"
    using a ne
    by (auto simp: handleTranslate_def Let_def split: prod.splits sum.splits option.splits)
next
  assume "trim text = []"
  then show "syllables_of text = []" by (rule blank_no_syllables)
next
  assume "syllables_of text = []"
  then show "smartSegmentAndTranslate env st text = Some (Inr [], st)" by (rule no_syllables_no_words)
next
  assume a: "req_text body = Some text \<and> trim text \<noteq> [] \<and> syllables_of text = [] \<and>
       mode = (case req_mode body of None \<Rightarrow> ViToEn | Some m \<Rightarrow> m) \<and>
       googleTranslate env st [text] (if mode = ViToEn then js ''vi'' else js ''en'')
          (if mode = ViToEn then js ''en'' else js ''vi'') = (Inr sentence, st1)"
  then have ne: "text \<noteq> []" by auto
  from a have seg: "smartSegmentAndTranslate env st1 text = Some (Inr [], st1)"
    by (simp add: no_syllables_no_words)
  show "handleTranslate env st body = Some (Status200 text (hd sentence) [], st1)"
  proof (cases "mode = ViToEn")
    case True
    with a ne seg show ?thesis by (simp add: handleTranslate_def Let_def)
  next
    case False
    with a ne show ?thesis by (simp add: handleTranslate_def Let_def)
  qed
qed

theorem handleTranslate_rejects_blank_text_witness:
  "trim (js ''  '') = []
   \<and> handleTranslate
        \<lparr>GOOGLE_API_KEY = js ''g'', GEMINI_API_KEY = [], toLowerCase = ascii_lower,
         gemini_api = (\<lambda>_ _ _ _. BadBody), google_api = (\<lambda>_ _ _ _. Body [js ''x''])\<rparr>
        \<lparr>dictionary = Map.empty, translationCache = Map.empty, sent = []\<rparr>
        \<lparr>req_text = Some (js ''  ''), req_mode = None\<rparr>
      = Some (Status400 (js ''No text provided''),
              \<lparr>dictionary = Map.empty, translationCache = Map.empty, sent = []\<rparr>)
   \<and> syllables_of (js ''  '') = []
   \<and> trim (js ''...'') = js ''...''
   \<and> syllables_of (js ''...'') = []
   \<and> googleTranslate
        \<lparr>GOOGLE_API_KEY = js ''g'', GEMINI_API_KEY = [], toLowerCase = ascii_lower,
         gemini_api = (\<lambda>_ _ _ _. BadBody), google_api = (\<lambda>_ _ _ _. Body [js ''x''])\<rparr>
        \<lparr>dictionary = Map.empty, translationCache = Map.empty, sent = []\<rparr>
        [js ''...''] (js ''vi'') (js ''en'')
      = (Inr [Some (js ''x'')],
         \<lparr>dictionary = Map.empty,
          translationCache = [cacheKey (js ''vi'') (js ''en'') (js ''...'') \<mapsto> js ''x''],
          sent = [GoogleRequest [js ''...''] (js ''vi'') (js ''en'')]\<rparr>)
   \<and> smartSegmentAndTranslate
        \<lparr>GOOGLE_API_KEY = js ''g'', GEMINI_API_KEY = [], toLowerCase = ascii_lower,
         gemini_api = (\<lambda>_ _ _ _. BadBody), google_api = (\<lambda>_ _ _ _. Body [js ''x''])\<rparr>
        \<lparr>dictionary = Map.empty, translationCache = Map.empty, sent = []\<rparr> (js ''...'')
      = Some (Inr [], \<lparr>dictionary = Map.empty, translationCache = Map.empty, sent = []\<rparr>)
   \<and> handleTranslate
        \<lparr>GOOGLE_API_KEY = js ''g'', GEMINI_API_KEY = [], toLowerCase = ascii_lower,
         gemini_api = (\<lambda>_ _ _ _. BadBody), google_api = (\<lambda>_ _ _ _. Body [js ''x''])\<rparr>
        \<lparr>dictionary = Map.empty, translationCache = Map.empty, sent = []\<rparr>
        \<lparr>req_text = Some (js ''...''), req_mode = None\<rparr>
      = Some (Status200 (js ''...'') (Some (js ''x'')) [],
         \<lparr>dictionary = Map.empty,
          translationCache = [cacheKey (js ''vi'') (js ''en'') (js ''...'') \<mapsto> js ''x''],
          sent = [GoogleRequest [js ''...''] (js ''vi'') (js ''en'')]\<rparr>)"
proof -
  let ?env = "\<lparr>GOOGLE_API_KEY = js ''g'', GEMINI_API_KEY = [], toLowerCase = ascii_lower,
         gemini_api = (\<lambda>_ _ _ _. BadBody), google_api = (\<lambda>_ _ _ _. Body [js ''x''])\<rparr>"
  let ?st = "\<lparr>dictionary = Map.empty, translationCache = Map.empty, sent = []\<rparr>"
  let ?st1 = "\<lparr>dictionary = Map.empty,
          translationCache = [cacheKey (js ''vi'') (js ''en'') (js ''...'') \<mapsto> js ''x''],
          sent = [GoogleRequest [js ''...''] (js ''vi'') (js ''en'')]\<rparr>"
  have blank: "trim (js ''  '') = []" by (simp add: str_eval)
  have dots: "trim (js ''...'') = js ''...''" by (simp add: str_eval)
  have ne: "js ''...'' \<noteq> []" by (simp add: js_def)
  have syl: "syllables_of (js ''...'') = []" by (simp add: str_eval)
  have run: "googleTranslate ?env ?st [js ''...''] (js ''vi'') (js ''en'') = (Inr [Some (js ''x'')], ?st1)"
    by (simp add: oracle_eval make_batches.simps str_eval nat_eval Let_def)
  note blank_inst = handleTranslate_rejects_blank_text
    [of "\<lparr>req_text = Some (js ''  ''), req_mode = None\<rparr>" ?env ?st "js ''  ''"]
  note dots_inst = handleTranslate_rejects_blank_text
    [of "\<lparr>req_text = Some (js ''...''), req_mode = None\<rparr>" ?env ?st "js ''...''" ViToEn
        "[Some (js ''x'')]" ?st1]
  have 1: "handleTranslate ?env ?st \<lparr>req_text = Some (js ''  ''), req_mode = None\<rparr>
             = Some (Status400 (js ''No text provided''), ?st)"
    using blank_inst blank by simp
  have 2: "syllables_of (js ''  '') = []"
    using blank_inst blank by simp
  have 3: "smartSegmentAndTranslate ?env ?st (js ''...'') = Some (Inr [], ?st)"
    using dots_inst syl by simp
  have 4: "handleTranslate ?env ?st \<lparr>req_text = Some (js ''...''), req_mode = None\<rparr>
             = Some (Status200 (js ''...'') (Some (js ''x'')) [], ?st1)"
    using dots_inst dots ne syl run by simp
  from blank 1 2 dots syl run 3 4 show ?thesis by blast
qed

text \<open>
  C8 as stated fails.  The normalized text of \<open>...\<close> has no syllables, yet the request is
  not rejected: the sentence is sent to the oracle, and the answer has status 200 and an
  empty list of words.
\<close>

theorem handleTranslate_punctuation_counterexample:
  "syllables_of (js ''...'') = []
   \<and> handleTranslate
        \<lparr>GOOGLE_API_KEY = js ''g'', GEMINI_API_KEY = [], toLowerCase = ascii_lower,
         gemini_api = (\<lambda>_ _ _ _. BadBody), google_api = (\<lambda>_ _ _ _. Body [js ''x''])\<rparr>
        \<lparr>dictionary = Map.empty, translationCache = Map.empty, sent = []\<rparr>
        \<lparr>req_text = Some (js ''...''), req_mode = None\<rparr>
      = Some (Status200 (js ''...'') (Some (js ''x'')) [],
         \<lparr>dictionary = Map.empty,
          translationCache = [cacheKey (js ''vi'') (js ''en'') (js ''...'') \<mapsto> js ''x''],
          sent = [GoogleRequest [js ''...''] (js ''vi'') (js ''en'')]\<rparr>)"
  by (simp add: handleTranslate_def smartSegmentAndTranslate_def oracle_eval make_batches.simps
        str_eval nat_eval Let_def)

subsection \<open>The bulk backend\<close>






subsection \<open>The contract of the translation client\<close>









end
